theory Spec2Isabelle
  imports Main "HOL-Library.Word" "HOL-Library.Multiset"
begin

section \<open>Write Buffer Manager\<close>

text \<open>
  A member name of the source ending in an underscore ends in a prime here
  (\<open>buffer_size_\<close> is \<open>buffer_size'\<close>), since an identifier cannot end in an underscore.

  The counters of \<^verbatim>\<open>WriteBufferManager\<close> are \<^verbatim>\<open>std::atomic<size_t>\<close>; \<^verbatim>\<open>size_t\<close> is
  taken as 64 bits wide. \<open>cache_res_mgr'\<close> is the shared pointer to the cache
  reservation manager (\<open>None\<close> is the null pointer). The stall queue, the mutexes and the
  flush-initiation bookkeeping are not read by the predicates embedded here.
\<close>

type_synonym size_t = "64 word"

record 'c WriteBufferManager =
  buffer_size' :: size_t
  mutable_limit' :: size_t
  memory_used' :: size_t
  memory_inactive' :: size_t
  memory_being_freed' :: size_t
  cache_res_mgr' :: "'c option"
  allow_stall' :: bool
  stall_active' :: bool
  initiate_flushes' :: bool

definition buffer_size :: "'c WriteBufferManager \<Rightarrow> size_t" where
  "buffer_size w = buffer_size' w"

definition enabled :: "'c WriteBufferManager \<Rightarrow> bool" where
  "enabled w = (buffer_size w > 0)"

definition cost_to_cache :: "'c WriteBufferManager \<Rightarrow> bool" where
  "cost_to_cache w = (cache_res_mgr' w \<noteq> None)"

definition memory_usage :: "'c WriteBufferManager \<Rightarrow> size_t" where
  "memory_usage w = memory_used' w"

definition mutable_memtable_memory_usage :: "'c WriteBufferManager \<Rightarrow> size_t" where
  "mutable_memtable_memory_usage w =
     (let total = memory_usage w;
          inactive = memory_inactive' w
      in if inactive \<ge> total then 0 else total - inactive)"

definition ShouldFlush :: "'c WriteBufferManager \<Rightarrow> bool" where
  "ShouldFlush w =
     (if (initiate_flushes' w = False) \<and> enabled w then
        (if mutable_memtable_memory_usage w > mutable_limit' w then True
         else
           (let local_size = buffer_size w
            in if memory_usage w \<ge> local_size \<and>
                  mutable_memtable_memory_usage w \<ge> local_size div 2
               then True
               else False))
      else False)"

definition IsStallActive :: "'c WriteBufferManager \<Rightarrow> bool" where
  "IsStallActive w = stall_active' w"

definition IsStallThresholdExceeded :: "'c WriteBufferManager \<Rightarrow> bool" where
  "IsStallThresholdExceeded w = (memory_usage w \<ge> buffer_size' w)"

definition ShouldStall :: "'c WriteBufferManager \<Rightarrow> bool" where
  "ShouldStall w =
     (if \<not> allow_stall' w \<or> \<not> enabled w then False
      else IsStallActive w \<or> IsStallThresholdExceeded w)"

text \<open>A disabled manager as the constructor leaves it: every counter zero, no cache.\<close>

definition disabled_wbm :: "bool \<Rightarrow> bool \<Rightarrow> unit WriteBufferManager" where
  "disabled_wbm allow_stall initiate_flushes =
     \<lparr> buffer_size' = 0, mutable_limit' = 0, memory_used' = 0, memory_inactive' = 0,
       memory_being_freed' = 0, cache_res_mgr' = None, allow_stall' = allow_stall,
       stall_active' = False, initiate_flushes' = initiate_flushes \<rparr>"

text \<open>
  A manager with stalls allowed whose whole buffer of \<open>n\<close> bytes has been reserved.
\<close>

definition full_wbm :: "size_t \<Rightarrow> unit WriteBufferManager" where
  "full_wbm n =
     \<lparr> buffer_size' = n, mutable_limit' = n * 7 div 8, memory_used' = n,
       memory_inactive' = 0, memory_being_freed' = 0, cache_res_mgr' = None,
       allow_stall' = True, stall_active' = False, initiate_flushes' = True \<rparr>"

section \<open>Scoped pinning policy\<close>

text \<open>
  \<open>capacity\<close> is a \<^verbatim>\<open>size_t\<close>, the two percentages are \<^verbatim>\<open>uint32_t\<close> and are converted
  to \<^verbatim>\<open>size_t\<close> by the multiplication; \<open>level\<close> is a C++ \<^verbatim>\<open>int\<close>, read with \<open>sint\<close>.
  All arithmetic of \<^verbatim>\<open>CheckPin\<close> is that of \<^verbatim>\<open>size_t\<close>: sums and products wrap modulo
  \<open>2 ^ 64\<close>.
\<close>

record ScopedPinningOptions =
  capacity :: size_t
  last_level_with_data_percent :: "32 word"
  mid_percent :: "32 word"

record TablePinningInfo =
  level :: "32 word"
  is_last_level_with_data :: bool
  item_owner_id :: nat
  file_size :: size_t
  max_file_size_for_l0_meta_pin :: size_t

definition CheckPin ::
  "ScopedPinningOptions \<Rightarrow> TablePinningInfo \<Rightarrow> size_t \<Rightarrow> size_t \<Rightarrow> bool" where
  "CheckPin options' tpi size' usage =
     (let proposed = usage + size'
      in if is_last_level_with_data tpi \<and> last_level_with_data_percent options' > 0 then
           (if proposed >
                 capacity options' * ucast (last_level_with_data_percent options') div 100
            then False else True)
         else if 0 < sint (level tpi) \<and> mid_percent options' > 0 then
           (if proposed > capacity options' * ucast (mid_percent options') div 100
            then False else True)
         else if proposed > capacity options' then False
         else True)"

text \<open>
  The bucket as the specification words it, over the natural numbers:
  \<open>capacity \<times> last_level_with_data_percent / 100\<close> when the table is in the last level
  with data and that share is configured, else \<open>capacity \<times> mid_percent / 100\<close> when the
  level is positive and that share is configured, else the whole capacity. The quotient is
  rounded down; nothing wraps.
\<close>

definition applicable_bucket :: "ScopedPinningOptions \<Rightarrow> TablePinningInfo \<Rightarrow> nat" where
  "applicable_bucket options' tpi =
     (if is_last_level_with_data tpi \<and> last_level_with_data_percent options' > 0
      then unat (capacity options') * unat (last_level_with_data_percent options') div 100
      else if 0 < sint (level tpi) \<and> mid_percent options' > 0
      then unat (capacity options') * unat (mid_percent options') div 100
      else unat (capacity options'))"

text \<open>
  Sample pinning data: a capacity with 10% for the last level with data and 80% for the
  middle levels, a table in level 0, one in a middle level, one in the last level with
  data.
\<close>

definition sample_pinning :: "size_t \<Rightarrow> ScopedPinningOptions" where
  "sample_pinning c =
     \<lparr> capacity = c, last_level_with_data_percent = 10, mid_percent = 80 \<rparr>"

definition sample_table :: "32 word \<Rightarrow> bool \<Rightarrow> TablePinningInfo" where
  "sample_table l is_last =
     \<lparr> level = l, is_last_level_with_data = is_last, item_owner_id = 0, file_size = 0,
       max_file_size_for_l0_meta_pin = 0 \<rparr>"

section \<open>Adaptive table factory\<close>

text \<open>
  \<^verbatim>\<open>Status\<close> carries a code and a message. The five magic numbers are \<^verbatim>\<open>extern\<close>
  constants whose values are not among the sources, so they are a parameter. Reading the footer
  and the three reader factories are collaborators: the footer read yields a status and a
  footer, a reader factory yields a status and the new content of the \<open>table\<close> out-parameter.
\<close>

datatype Code = kOk | kNotFound | kCorruption | kNotSupported | kInvalidArgument | kIOError

datatype Status = Status Code string

fun ok :: "Status \<Rightarrow> bool" where
  "ok (Status c m) = (c = kOk)"

definition NotSupported :: "string \<Rightarrow> Status" where
  "NotSupported msg = Status kNotSupported msg"

record Footer =
  table_magic_number :: "64 word"

record MagicNumbers =
  kPlainTableMagicNumber :: "64 word"
  kLegacyPlainTableMagicNumber :: "64 word"
  kBlockBasedTableMagicNumber :: "64 word"
  kLegacyBlockBasedTableMagicNumber :: "64 word"
  kCuckooTableMagicNumber :: "64 word"

record ('ro, 'tro, 'file, 'reader) AdaptiveTableFactory =
  plain_table_factory' ::
    "'tro \<Rightarrow> 'file \<Rightarrow> 64 word \<Rightarrow> 'reader option \<Rightarrow> Status \<times> 'reader option"
  block_based_table_factory' ::
    "'ro \<Rightarrow> 'tro \<Rightarrow> 'file \<Rightarrow> 64 word \<Rightarrow> 'reader option \<Rightarrow> bool \<Rightarrow> Status \<times> 'reader option"
  cuckoo_table_factory' ::
    "'tro \<Rightarrow> 'file \<Rightarrow> 64 word \<Rightarrow> 'reader option \<Rightarrow> Status \<times> 'reader option"

definition NewTableReader ::
  "MagicNumbers \<Rightarrow> ('tro \<Rightarrow> 'file \<Rightarrow> 64 word \<Rightarrow> Status \<times> Footer) \<Rightarrow>
   ('ro, 'tro, 'file, 'reader) AdaptiveTableFactory \<Rightarrow>
   'ro \<Rightarrow> 'tro \<Rightarrow> 'file \<Rightarrow> 64 word \<Rightarrow> 'reader option \<Rightarrow> bool \<Rightarrow> Status \<times> 'reader option" where
  "NewTableReader mn ReadFooterFromFile f ro table_reader_options file file_size' table
       prefetch_index_and_filter_in_cache =
     (let (s, footer) = ReadFooterFromFile table_reader_options file file_size'
      in if \<not> ok s then (s, table)
         else if table_magic_number footer = kPlainTableMagicNumber mn \<or>
                 table_magic_number footer = kLegacyPlainTableMagicNumber mn then
           plain_table_factory' f table_reader_options file file_size' table
         else if table_magic_number footer = kBlockBasedTableMagicNumber mn \<or>
                 table_magic_number footer = kLegacyBlockBasedTableMagicNumber mn then
           block_based_table_factory' f ro table_reader_options file file_size' table
             prefetch_index_and_filter_in_cache
         else if table_magic_number footer = kCuckooTableMagicNumber mn then
           cuckoo_table_factory' f table_reader_options file file_size' table
         else (NotSupported ''Unidentified table format'', table))"

definition recognized :: "MagicNumbers \<Rightarrow> 64 word \<Rightarrow> bool" where
  "recognized mn m =
     (m = kPlainTableMagicNumber mn \<or> m = kLegacyPlainTableMagicNumber mn \<or>
      m = kBlockBasedTableMagicNumber mn \<or> m = kLegacyBlockBasedTableMagicNumber mn \<or>
      m = kCuckooTableMagicNumber mn)"

section \<open>Hybrid compaction picker: concurrency predicates\<close>

text \<open>
  The running descriptor is indexed by hyper-level number; \<open>LevelFiles\<close> gives the file
  list of a physical level. \<^verbatim>\<open>LastLevelInHyper\<close> and the emptiness test of the
  sub-compaction cursor are declared in \<^verbatim>\<open>compaction_picker_hybrid.h\<close>, which is not
  among the sources, and are parameters of the predicates that call them.
\<close>

record HybridCompactionDescriptor =
  nCompactions :: nat
  hasRearange :: bool
  startLevel :: nat

record HybridComactionsDescribtors =
  desc :: "nat \<Rightarrow> HybridCompactionDescriptor"
  rearangeRunning :: bool
  manualComapctionRunning :: bool

record 'f VersionStorageInfo =
  LevelFiles :: "nat \<Rightarrow> 'f list"

record 'c HybridCompactionPicker =
  curNumOfHyperLevels' :: nat
  prevSubCompaction' :: "nat \<Rightarrow> 'c"

definition MayRunCompaction ::
  "'c HybridCompactionPicker \<Rightarrow> nat \<Rightarrow> HybridComactionsDescribtors \<Rightarrow> bool" where
  "MayRunCompaction p hyperLevelNum running =
     (nCompactions (desc running hyperLevelNum) = 0 \<and>
      (hyperLevelNum = curNumOfHyperLevels' p \<or>
       \<not> hasRearange (desc running (hyperLevelNum + 1))))"

definition MayRunRearange ::
  "'c HybridCompactionPicker \<Rightarrow> nat \<Rightarrow> HybridComactionsDescribtors \<Rightarrow> bool" where
  "MayRunRearange p hyperLevelNum running =
     (hyperLevelNum > 0 \<and> \<not> rearangeRunning running \<and>
      nCompactions (desc running hyperLevelNum) = 0)"

definition MayStartLevelCompaction ::
  "(nat \<Rightarrow> nat) \<Rightarrow> ('c \<Rightarrow> bool) \<Rightarrow> 'c HybridCompactionPicker \<Rightarrow> nat \<Rightarrow>
   HybridComactionsDescribtors \<Rightarrow> 'f VersionStorageInfo \<Rightarrow> bool" where
  "MayStartLevelCompaction LastLevelInHyper cursor_empty p hyperLevelNum running vstorage =
     (if nCompactions (desc running hyperLevelNum) > 0 then False
      else if hyperLevelNum \<noteq> curNumOfHyperLevels' p \<and>
              cursor_empty (prevSubCompaction' p hyperLevelNum) \<and>
              \<not> (LevelFiles vstorage (LastLevelInHyper hyperLevelNum + 1) = [])
      then False
      else True)"

section \<open>HashSpd memtable\<close>

text \<open>
  A key handle is a value of type \<open>'k\<close>; two different handles may carry keys that the
  comparator finds equal. The comparator returns a C++ \<^verbatim>\<open>int\<close>: negative, zero or
  positive. The model is sequential: the operations run one after the other, and the
  mutexes of the hash table and the container's read-write lock are left out.
\<close>

type_synonym 'k KeyComparator = "'k \<Rightarrow> 'k \<Rightarrow> int"

definition kMergedVectorsMax :: nat where
  "kMergedVectorsMax = 8"

subsection \<open>Hash buckets\<close>

text \<open>
  A bucket is the chain of handles reached from \<open>items_\<close> through the \<open>next\<close> pointers.
  \<^verbatim>\<open>BucketHeader::Add\<close> returns whether the handle was linked, and the chain afterwards.
\<close>

fun BucketHeader_Contains :: "'k KeyComparator \<Rightarrow> 'k list \<Rightarrow> 'k \<Rightarrow> bool" where
  "BucketHeader_Contains comparator [] check_key = False"
| "BucketHeader_Contains comparator (k # rest) check_key =
     (let cmp_res = comparator k check_key
      in if cmp_res = 0 then True
         else if cmp_res > 0 then False
         else BucketHeader_Contains comparator rest check_key)"

fun BucketHeader_Add :: "'k KeyComparator \<Rightarrow> 'k \<Rightarrow> 'k list \<Rightarrow> bool \<times> 'k list" where
  "BucketHeader_Add comparator val [] = (True, [val])"
| "BucketHeader_Add comparator val (k # rest) =
     (let cmp_res = comparator k val
      in if cmp_res = 0 then (False, k # rest)
         else if cmp_res > 0 then (True, val # k # rest)
         else (case BucketHeader_Add comparator val rest of
                 (r, rest') \<Rightarrow> (r, k # rest')))"

text \<open>
  \<^verbatim>\<open>SpdbHashTable\<close>. \<open>GetHash\<close> stands for the Murmur hash of the user key without
  timestamp, decoded from the handle's key. The bucket index is the hash modulo the number
  of buckets; with no bucket at all the modulo divides by zero, which is the result
  \<open>None\<close> of the operations below.
\<close>

record 'k SpdbHashTable =
  buckets' :: "'k list list"

definition GetMutexAndBucket :: "('k \<Rightarrow> nat) \<Rightarrow> 'k SpdbHashTable \<Rightarrow> 'k \<Rightarrow> nat option" where
  "GetMutexAndBucket GetHash t key =
     (if buckets' t = [] then None
      else Some (GetHash key mod length (buckets' t)))"

definition SpdbHashTable_Add ::
  "('k \<Rightarrow> nat) \<Rightarrow> 'k KeyComparator \<Rightarrow> 'k SpdbHashTable \<Rightarrow> 'k \<Rightarrow>
   (bool \<times> 'k SpdbHashTable) option" where
  "SpdbHashTable_Add GetHash comparator t val =
     (case GetMutexAndBucket GetHash t val of
        None \<Rightarrow> None
      | Some i \<Rightarrow>
          (case BucketHeader_Add comparator val (buckets' t ! i) of
             (r, bucket) \<Rightarrow> Some (r, t\<lparr>buckets' := (buckets' t)[i := bucket]\<rparr>)))"


text \<open>
  \<^verbatim>\<open>SpdbHashTable::Get\<close> first skips the entries below the lookup key, then hands each
  following entry to the callback until the callback returns false. The result is the list
  of entries the callback was called on.
\<close>

fun Get_seek :: "'k KeyComparator \<Rightarrow> 'k \<Rightarrow> 'k list \<Rightarrow> 'k list" where
  "Get_seek comparator k [] = []"
| "Get_seek comparator k (x # rest) =
     (if comparator x k \<ge> 0 then x # rest else Get_seek comparator k rest)"

fun Get_callbacks :: "('k \<Rightarrow> bool) \<Rightarrow> 'k list \<Rightarrow> 'k list" where
  "Get_callbacks callback_func [] = []"
| "Get_callbacks callback_func (x # rest) =
     (if \<not> callback_func x then [x] else x # Get_callbacks callback_func rest)"

definition SpdbHashTable_Get ::
  "('k \<Rightarrow> nat) \<Rightarrow> 'k KeyComparator \<Rightarrow> 'k SpdbHashTable \<Rightarrow> 'k \<Rightarrow> ('k \<Rightarrow> bool) \<Rightarrow>
   'k list option" where
  "SpdbHashTable_Get GetHash comparator t k callback_func =
     (case GetMutexAndBucket GetHash t k of
        None \<Rightarrow> None
      | Some i \<Rightarrow> Some (Get_callbacks callback_func (Get_seek comparator k (buckets' t ! i))))"

subsection \<open>Sorted vectors\<close>

text \<open>
  \<open>items'\<close> is the fixed-size array of key pointers, \<open>None\<close> a slot not written yet;
  \<open>n_elements'\<close> counts the calls of \<open>Add\<close>, also those that found the array full.
\<close>

record 'k SpdbVector =
  items' :: "'k option list"
  n_elements' :: nat
  sorted' :: bool

text \<open>
  Modelled from the spec: the constructor \<^verbatim>\<open>SpdbVector(limit)\<close> is in the header
  \<^verbatim>\<open>spdb_sorted_vector.h\<close>, which is not among the sources. A fresh sorted vector is an
  "append-only fixed-capacity array of key pointers" with \<open>count\<close> zero, not sealed.
\<close>

definition SpdbVector_new :: "nat \<Rightarrow> 'k SpdbVector" where
  "SpdbVector_new switch_spdb_vector_limit =
     \<lparr> items' = replicate switch_spdb_vector_limit None, n_elements' = 0, sorted' = False \<rparr>"

text \<open>
  Modelled from the spec: the constructor \<^verbatim>\<open>SpdbVector(items, n)\<close> is in the same header.
  \<^verbatim>\<open>Merge\<close> builds with it the "merged SV" it swaps into the container: the vector holds
  the merged keys and is sealed.
\<close>

definition SpdbVector_merged :: "'k option list \<Rightarrow> nat \<Rightarrow> 'k SpdbVector" where
  "SpdbVector_merged merged n =
     \<lparr> items' = merged, n_elements' = min n (length merged), sorted' = True \<rparr>"

definition SpdbVector_Add :: "'k SpdbVector \<Rightarrow> 'k \<Rightarrow> bool \<times> 'k SpdbVector" where
  "SpdbVector_Add v key =
     (let location = n_elements' v;
          v1 = v\<lparr>n_elements' := location + 1\<rparr>
      in if location < length (items' v1)
         then (True, v1\<lparr>items' := (items' v1)[location := Some key]\<rparr>)
         else (False, v1))"

text \<open>
  \<^verbatim>\<open>Compare(comparator)\<close> orders two key pointers by \<open>comparator(a, b) < 0\<close>. The source
  never sorts an unwritten slot in a sequential run; the model leaves such a slot unordered.
  \<^verbatim>\<open>std::sort\<close> is modelled by insertion sort.
\<close>

definition Compare :: "'k KeyComparator \<Rightarrow> 'k option \<Rightarrow> 'k option \<Rightarrow> bool" where
  "Compare comparator a b =
     (case a of None \<Rightarrow> False
      | Some x \<Rightarrow> (case b of None \<Rightarrow> False | Some y \<Rightarrow> comparator x y < 0))"

fun insert_sorted :: "('a \<Rightarrow> 'a \<Rightarrow> bool) \<Rightarrow> 'a \<Rightarrow> 'a list \<Rightarrow> 'a list" where
  "insert_sorted lt x [] = [x]"
| "insert_sorted lt x (y # ys) =
     (if lt y x then y # insert_sorted lt x ys else x # y # ys)"

fun std_sort :: "('a \<Rightarrow> 'a \<Rightarrow> bool) \<Rightarrow> 'a list \<Rightarrow> 'a list" where
  "std_sort lt [] = []"
| "std_sort lt (x # xs) = insert_sorted lt x (std_sort lt xs)"

definition SpdbVector_Sort :: "'k KeyComparator \<Rightarrow> 'k SpdbVector \<Rightarrow> bool \<times> 'k SpdbVector" where
  "SpdbVector_Sort comparator v =
     (if n_elements' v = 0 then (False, v)
      else if sorted' v then (True, v)
      else
        (let num_elements = min (n_elements' v) (length (items' v));
             v1 = v\<lparr>n_elements' := num_elements\<rparr>;
             v2 = (if num_elements < length (items' v1)
                   then v1\<lparr>items' := take num_elements (items' v1)\<rparr> else v1)
         in (True, v2\<lparr>items' := std_sort (Compare comparator) (items' v2), sorted' := True\<rparr>)))"

text \<open>
  Modelled from the spec: \<^verbatim>\<open>SpdbVector::IsEmpty\<close> is declared in the same header; a
  vector is empty when its \<open>count\<close> is zero, as \<^verbatim>\<open>Sort\<close> tests it.
\<close>

definition SpdbVector_IsEmpty :: "'k SpdbVector \<Rightarrow> bool" where
  "SpdbVector_IsEmpty v = (n_elements' v = 0)"

subsection \<open>The container of sorted vectors\<close>

record 'k SpdbVectorContainer =
  spdb_vectors' :: "'k SpdbVector list"
  num_elements' :: nat
  switch_spdb_vector_limit' :: nat
  immutable' :: bool

text \<open>
  Modelled from the spec: the constructor of \<^verbatim>\<open>SpdbVectorContainer\<close> is in the same
  header. A new container is mutable and holds one vector, the unsealed tail ("at most one
  SV is unsealed, and it is the tail").
\<close>

definition SpdbVectorContainer_new :: "nat \<Rightarrow> 'k SpdbVectorContainer" where
  "SpdbVectorContainer_new switch_spdb_vector_limit =
     \<lparr> spdb_vectors' = [SpdbVector_new switch_spdb_vector_limit], num_elements' = 0,
       switch_spdb_vector_limit' = switch_spdb_vector_limit, immutable' = False \<rparr>"

text \<open>
  \<^verbatim>\<open>spdb_vectors_.back()\<close> of an empty list is undefined; the operations that take the
  tail return \<open>None\<close> there.
\<close>

definition InternalInsert ::
  "'k SpdbVectorContainer \<Rightarrow> 'k \<Rightarrow> (bool \<times> 'k SpdbVectorContainer) option" where
  "InternalInsert c key =
     (if spdb_vectors' c = [] then None
      else
        (case SpdbVector_Add (last (spdb_vectors' c)) key of
           (r, v) \<Rightarrow> Some (r, c\<lparr>spdb_vectors' := butlast (spdb_vectors' c) @ [v]\<rparr>)))"

definition SpdbVectorContainer_Insert ::
  "'k SpdbVectorContainer \<Rightarrow> 'k \<Rightarrow> 'k SpdbVectorContainer option" where
  "SpdbVectorContainer_Insert c key =
     (let c1 = c\<lparr>num_elements' := num_elements' c + 1\<rparr>
      in case InternalInsert c1 key of
           None \<Rightarrow> None
         | Some (r1, c2) \<Rightarrow>
             if r1 then Some c2
             else
               (case InternalInsert c2 key of
                  None \<Rightarrow> None
                | Some (r2, c3) \<Rightarrow>
                    if r2 then Some c3
                    else
                      (let c4 = c3\<lparr>spdb_vectors' := spdb_vectors' c3 @
                                   [SpdbVector_new (switch_spdb_vector_limit' c3)]\<rparr>
                       in case InternalInsert c4 key of
                            None \<Rightarrow> None
                          | Some (r3, c5) \<Rightarrow> Some c5)))"


subsection \<open>The memtable representation\<close>

record 'k HashSpdRep =
  spdb_hash_table' :: "'k SpdbHashTable"
  spdb_vectors_cont' :: "'k SpdbVectorContainer"

definition HashSpdRep_new :: "nat \<Rightarrow> nat \<Rightarrow> 'k HashSpdRep" where
  "HashSpdRep_new bucket_size add_list_limit_size =
     \<lparr> spdb_hash_table' = \<lparr> buckets' = replicate bucket_size [] \<rparr>,
       spdb_vectors_cont' = SpdbVectorContainer_new add_list_limit_size \<rparr>"

definition InsertKey ::
  "('k \<Rightarrow> nat) \<Rightarrow> 'k KeyComparator \<Rightarrow> 'k HashSpdRep \<Rightarrow> 'k \<Rightarrow> (bool \<times> 'k HashSpdRep) option" where
  "InsertKey GetHash compare' rep spdb_handle =
     (case SpdbHashTable_Add GetHash compare' (spdb_hash_table' rep) spdb_handle of
        None \<Rightarrow> None
      | Some (added, t) \<Rightarrow>
          (let rep1 = rep\<lparr>spdb_hash_table' := t\<rparr>
           in if \<not> added then Some (False, rep1)
              else
                (case SpdbVectorContainer_Insert (spdb_vectors_cont' rep1) spdb_handle of
                   None \<Rightarrow> None
                 | Some c \<Rightarrow> Some (True, rep1\<lparr>spdb_vectors_cont' := c\<rparr>))))"


definition ApproximateMemoryUsage :: "'k HashSpdRep \<Rightarrow> size_t" where
  "ApproximateMemoryUsage rep = 0"

text \<open>A sequence of inserts, one after the other, with the result of each.\<close>

fun InsertKeys ::
  "('k \<Rightarrow> nat) \<Rightarrow> 'k KeyComparator \<Rightarrow> 'k HashSpdRep \<Rightarrow> 'k list \<Rightarrow>
   (bool list \<times> 'k HashSpdRep) option" where
  "InsertKeys GetHash compare' rep [] = Some ([], rep)"
| "InsertKeys GetHash compare' rep (h # hs) =
     (case InsertKey GetHash compare' rep h of
        None \<Rightarrow> None
      | Some (r, rep1) \<Rightarrow>
          (case InsertKeys GetHash compare' rep1 hs of
             None \<Rightarrow> None
           | Some (rs, rep2) \<Rightarrow> Some (r # rs, rep2)))"

subsection \<open>Iteration over the container\<close>


text \<open>
  \<^verbatim>\<open>SeekIter\<close> for a forward seek without key: every anchored vector is sorted; a vector
  whose \<open>Sort\<close> succeeded and that is not empty enters the heap, positioned at its first
  item. The result is the vectors after sorting and the item arrays in the heap.
\<close>

fun SeekIter ::
  "'k KeyComparator \<Rightarrow> 'k SpdbVector list \<Rightarrow> 'k SpdbVector list \<times> 'k option list list" where
  "SeekIter comparator [] = ([], [])"
| "SeekIter comparator (v # vs) =
     (case SpdbVector_Sort comparator v of
        (sorted_ok, v1) \<Rightarrow>
          (case SeekIter comparator vs of
             (vs1, heap) \<Rightarrow>
               (v1 # vs1,
                if sorted_ok \<and> \<not> SpdbVector_IsEmpty v1 \<and> items' v1 \<noteq> []
                then items' v1 # heap else heap)))"

text \<open>The merge of two lists, the smaller head first.\<close>

fun merge_items :: "('a \<Rightarrow> 'a \<Rightarrow> bool) \<Rightarrow> 'a list \<Rightarrow> 'a list \<Rightarrow> 'a list" where
  "merge_items lt [] ys = ys"
| "merge_items lt xs [] = xs"
| "merge_items lt (x # xs) (y # ys) =
     (if lt y x then y # merge_items lt (x # xs) ys else x # merge_items lt xs (y # ys))"

text \<open>
  Modelled from the spec: the class \<^verbatim>\<open>SpdbVectorIterator\<close> is in the same header. The
  iterator "owns per-SV cursors in a comparator-ordered heap (min-heap for forward)": a
  forward pass yields the items of the vectors in its heap merged in comparator order,
  each stored item once.
\<close>

definition heap_merge :: "'k KeyComparator \<Rightarrow> 'k option list list \<Rightarrow> 'k option list" where
  "heap_merge comparator heap = foldr (merge_items (Compare comparator)) heap []"

text \<open>The keys in the written slots of an array of key pointers.\<close>

fun somes :: "'a option list \<Rightarrow> 'a list" where
  "somes [] = []"
| "somes (None # xs) = somes xs"
| "somes (Some x # xs) = x # somes xs"


subsection \<open>The sort thread\<close>

text \<open>
  The loop of \<^verbatim>\<open>TryMergeVectors\<close> over the sizes of the vectors at positions
  \<open>s, s + 1, \<dots>\<close> up to, but not including, the position passed as \<open>last\<close>. It returns
  \<open>start\<close>, \<open>last\<close> and \<open>count\<close> as the loop leaves them.
\<close>

fun TryMergeVectors_loop ::
  "nat \<Rightarrow> nat list \<Rightarrow> nat \<Rightarrow> nat \<Rightarrow> nat \<Rightarrow> nat \<Rightarrow> nat \<times> nat \<times> nat" where
  "TryMergeVectors_loop merge_threshold [] s start count' last_it = (start, last_it, count')"
| "TryMergeVectors_loop merge_threshold (sz # rest) s start count' last_it =
     (if sz > merge_threshold then
        (if count' > 1 then (start, s, count')
         else TryMergeVectors_loop merge_threshold rest (s + 1) (s + 1) 0 last_it)
      else
        (if count' + 1 = kMergedVectorsMax then (start, s + 1, count' + 1)
         else TryMergeVectors_loop merge_threshold rest (s + 1) start (count' + 1) last_it))"

text \<open>
  \<^verbatim>\<open>Merge\<close> replaces the vectors at positions \<open>begin \<dots> end - 1\<close> by one vector holding
  the keys an iterator over them yields, provided they hold any. \<open>Size\<close> is
  \<^verbatim>\<open>SpdbVector::Size\<close>, declared in the header that is not among the sources, and a
  parameter. The source sums the sizes in an \<^verbatim>\<open>int\<close> accumulator; the sum is taken here
  without overflow.
\<close>

definition Merge ::
  "'k KeyComparator \<Rightarrow> ('k SpdbVector \<Rightarrow> nat) \<Rightarrow> 'k SpdbVectorContainer \<Rightarrow> nat \<Rightarrow> nat \<Rightarrow>
   'k SpdbVectorContainer" where
  "Merge comparator Size c begin_it end_it =
     (let chosen = take (end_it - begin_it) (drop begin_it (spdb_vectors' c));
          num_elements = sum_list (map Size chosen)
      in if num_elements > 0 then
           (let merged = map Some (somes (heap_merge comparator (snd (SeekIter comparator chosen))));
                actual_elements_count = length merged;
                new_vector = SpdbVector_merged merged actual_elements_count
            in c\<lparr>spdb_vectors' := take begin_it (spdb_vectors' c) @ [new_vector] @
                                     drop end_it (spdb_vectors' c)\<rparr>)
         else c)"

text \<open>
  \<^verbatim>\<open>TryMergeVectors\<close> returns its boolean, the container, and the positions it passed to
  \<^verbatim>\<open>Merge\<close> when it called it.
\<close>

definition TryMergeVectors ::
  "'k KeyComparator \<Rightarrow> ('k SpdbVector \<Rightarrow> nat) \<Rightarrow> 'k SpdbVectorContainer \<Rightarrow> nat \<Rightarrow>
   bool \<times> 'k SpdbVectorContainer \<times> (nat \<times> nat) option" where
  "TryMergeVectors comparator Size c last_it =
     (let merge_threshold = switch_spdb_vector_limit' c * 75 div 100
      in case TryMergeVectors_loop merge_threshold
                (map Size (take last_it (spdb_vectors' c))) 0 0 0 last_it of
           (start, last1, count') \<Rightarrow>
             if count' > 1
             then (True, Merge comparator Size c start last1, Some (start, last1))
             else (False, c, None))"

text \<open>
  One pass of the body of the loop of \<^verbatim>\<open>SortThread\<close>, after the wait. \<open>sort_iter_anchor\<close>
  is the position of the first vector not sorted yet. The pass ends the thread
  (\<open>Break\<close>) or goes back to waiting with a container, an anchor, and the positions of the
  merge it made, if any. Taking the tail of an empty list, or an anchor beyond the tail, is
  outside the source's defined behaviour (\<open>Undefined\<close>).
\<close>

datatype 'k SortThreadStep =
  Break
  | Undefined
  | Continue "'k SpdbVectorContainer" nat "(nat \<times> nat) option"

definition SortThread_sort ::
  "'k KeyComparator \<Rightarrow> 'k SpdbVector list \<Rightarrow> nat \<Rightarrow> nat \<Rightarrow> 'k SpdbVector list" where
  "SortThread_sort comparator vs sort_iter_anchor last_it =
     take sort_iter_anchor vs @
     map (\<lambda>v. snd (SpdbVector_Sort comparator v))
       (take (last_it - sort_iter_anchor) (drop sort_iter_anchor vs)) @
     drop last_it vs"

definition SortThread ::
  "'k KeyComparator \<Rightarrow> ('k SpdbVector \<Rightarrow> nat) \<Rightarrow> 'k SpdbVectorContainer \<Rightarrow> nat \<Rightarrow>
   'k SortThreadStep" where
  "SortThread comparator Size c sort_iter_anchor =
     (if immutable' c then Break
      else if spdb_vectors' c = [] then Undefined
      else
        (let last_it = length (spdb_vectors' c) - 1
         in if last_it = sort_iter_anchor then Continue c sort_iter_anchor None
            else if last_it < sort_iter_anchor then Undefined
            else
              (let c1 = c\<lparr>spdb_vectors' :=
                           SortThread_sort comparator (spdb_vectors' c) sort_iter_anchor last_it\<rparr>
               in if length (spdb_vectors' c1) > kMergedVectorsMax then
                    (case TryMergeVectors comparator Size c1 last_it of
                       (merged, c2, call) \<Rightarrow>
                         if merged then Continue c2 0 call else Continue c2 last_it call)
                  else Continue c1 last_it None)))"

text \<open>The positions of the merge a pass of the sort thread made, if it made one.\<close>

fun merge_call :: "'k SortThreadStep \<Rightarrow> (nat \<times> nat) option" where
  "merge_call (Continue c a call) = call"
| "merge_call Break = None"
| "merge_call Undefined = None"

subsection \<open>Comparators and sortedness\<close>

text \<open>
  A comparator is valid when it is a total preorder read through its sign: reflexive,
  antisymmetric in sign, and transitive. A bucket is strictly sorted when each entry
  compares below every later one. The hash respects the comparator when keys that compare
  equal hash alike, as they do when equal keys have the same user key.
\<close>

definition valid_comparator :: "'k KeyComparator \<Rightarrow> bool" where
  "valid_comparator comparator =
     ((\<forall>a. comparator a a = 0) \<and>
      (\<forall>a b. (comparator a b < 0) = (comparator b a > 0)) \<and>
      (\<forall>a b c. comparator a b \<le> 0 \<and> comparator b c \<le> 0 \<longrightarrow> comparator a c \<le> 0))"

definition strictly_sorted :: "'k KeyComparator \<Rightarrow> 'k list \<Rightarrow> bool" where
  "strictly_sorted comparator b = sorted_wrt (\<lambda>x y. comparator x y < 0) b"


subsection \<open>Invariants of the memtable\<close>





definition rep_sorted :: "'k KeyComparator \<Rightarrow> 'k HashSpdRep \<Rightarrow> bool" where
  "rep_sorted compare' rep =
     (buckets' (spdb_hash_table' rep) \<noteq> [] \<and>
      (\<forall>b\<in>set (buckets' (spdb_hash_table' rep)). strictly_sorted compare' b) \<and>
      spdb_vectors' (spdb_vectors_cont' rep) \<noteq> [])"



subsection \<open>Runs of the memtable\<close>



text \<open>
  Sample memtable data: keys that are natural numbers in their usual order, a sealed vector
  holding given keys, and a container of limit 4 with eight sealed vectors of three keys
  each before its empty tail.
\<close>

definition nat_comparator :: "nat KeyComparator" where
  "nat_comparator a b = (if a < b then - 1 else if a = b then 0 else 1)"


definition sealed_vector :: "'k list \<Rightarrow> 'k SpdbVector" where
  "sealed_vector ks = \<lparr> items' = map Some ks, n_elements' = length ks, sorted' = True \<rparr>"

definition nine_vectors :: "nat SpdbVectorContainer" where
  "nine_vectors =
     \<lparr> spdb_vectors' =
         map (\<lambda>j. sealed_vector [3 * j + 1, 3 * j + 2, 3 * j + 3]) [0, 1, 2, 3, 4, 5, 6, 7] @
         [SpdbVector_new 4],
       num_elements' = 24, switch_spdb_vector_limit' = 4, immutable' = False \<rparr>"

text \<open>
  A sample picker state: three hyper-levels, a cursor that is a flag (\<open>True\<close> is empty),
  no compaction running, and a version in which every level holds one file. The sample
  layout puts the last level of hyper-level \<open>H\<close> at \<open>6 * H\<close>.
\<close>

definition sample_picker :: "bool \<Rightarrow> bool HybridCompactionPicker" where
  "sample_picker cursor_is_empty =
     \<lparr> curNumOfHyperLevels' = 2, prevSubCompaction' = (\<lambda>h. cursor_is_empty) \<rparr>"

definition idle_descriptors :: HybridComactionsDescribtors where
  "idle_descriptors =
     \<lparr> desc = (\<lambda>h. \<lparr> nCompactions = 0, hasRearange = False, startLevel = 0 \<rparr>),
       rearangeRunning = False, manualComapctionRunning = False \<rparr>"

definition full_version :: "nat VersionStorageInfo" where
  "full_version = \<lparr> LevelFiles = (\<lambda>l. [l]) \<rparr>"

text \<open>Sample magic numbers and reader factories for the adaptive table factory.\<close>

definition sample_magic :: MagicNumbers where
  "sample_magic =
     \<lparr> kPlainTableMagicNumber = 1, kLegacyPlainTableMagicNumber = 2,
       kBlockBasedTableMagicNumber = 3, kLegacyBlockBasedTableMagicNumber = 4,
       kCuckooTableMagicNumber = 5 \<rparr>"

definition sample_factory :: "(unit, unit, unit, string) AdaptiveTableFactory" where
  "sample_factory =
     \<lparr> plain_table_factory' = (\<lambda>tro file fsz table. (Status kOk [], Some ''plain'')),
       block_based_table_factory' =
         (\<lambda>ro tro file fsz table prefetch. (Status kOk [], Some ''block_based'')),
       cuckoo_table_factory' = (\<lambda>tro file fsz table. (Status kOk [], Some ''cuckoo'')) \<rparr>"

definition footer_with :: "64 word \<Rightarrow> unit \<Rightarrow> unit \<Rightarrow> 64 word \<Rightarrow> Status \<times> Footer" where
  "footer_with m tro file fsz = (Status kOk [], \<lparr> table_magic_number = m \<rparr>)"

section \<open>Theorems\<close>

subsection \<open>Write Buffer Manager\<close>

lemma ShouldFlush_disabled:
  "buffer_size' w = 0 \<Longrightarrow> ShouldFlush w = False"
  by (simp add: ShouldFlush_def enabled_def buffer_size_def)

text \<open>
  C1. The claim is that a manager with \<open>buffer_size = 0\<close> answers \<open>should_flush()\<close> with
  true. \<^verbatim>\<open>ShouldFlush\<close> guards its whole body with \<open>enabled()\<close> and falls through to
  \<open>return false\<close>: for the disabled manager, with flush initiation off or on, the answer
  is false.
\<close>

theorem ShouldFlush_disabled_is_false:
  "ShouldFlush (disabled_wbm False False) = False \<and>
   ShouldFlush (disabled_wbm False True) = False"
  by (simp add: ShouldFlush_def enabled_def buffer_size_def disabled_wbm_def)

text \<open>
  C2 as stated: whenever stalls are allowed and a stall is active or
  \<open>used \<ge> buffer_size\<close>, \<open>should_stall()\<close> is true. It fails for the disabled manager,
  where \<open>used = 0 \<ge> 0 = buffer_size\<close> and \<^verbatim>\<open>ShouldStall\<close> returns false.
\<close>

theorem ShouldStall_disabled_counterexample:
  "allow_stall' (disabled_wbm True True) \<and>
   (stall_active' (disabled_wbm True True) \<or>
    memory_used' (disabled_wbm True True) \<ge> buffer_size' (disabled_wbm True True)) \<and>
   \<not> ShouldStall (disabled_wbm True True)"
  by (simp add: ShouldStall_def enabled_def buffer_size_def disabled_wbm_def)

text \<open>
  C2, amended: \<open>should_stall()\<close> is true exactly when stalls are allowed, the manager is
  enabled (\<open>buffer_size > 0\<close>), and a stall is active or \<open>used \<ge> buffer_size\<close>.
\<close>

theorem ShouldStall_iff:
  "ShouldStall w =
     (allow_stall' w \<and> buffer_size' w > 0 \<and>
      (stall_active' w \<or> memory_used' w \<ge> buffer_size' w))"
  by (auto simp: ShouldStall_def enabled_def buffer_size_def IsStallActive_def
      IsStallThresholdExceeded_def memory_usage_def)

theorem ShouldStall_iff_witness:
  "ShouldStall (full_wbm 1048576) \<and> \<not> ShouldStall (disabled_wbm True False)"
  using ShouldStall_iff [of "full_wbm 1048576"] ShouldStall_iff [of "disabled_wbm True False"]
  by (simp add: full_wbm_def disabled_wbm_def)

text \<open>
  C10. \<open>mutable_memtable_memory_usage()\<close> is \<open>used - inactive\<close> when \<open>inactive < used\<close>
  and 0 otherwise; read as natural numbers the result is the truncated difference, so the
  unsigned subtraction never wraps, also when \<open>inactive\<close> exceeds \<open>used\<close>.
\<close>

theorem mutable_memtable_memory_usage_no_wrap:
  "mutable_memtable_memory_usage w =
     (if memory_inactive' w < memory_used' w then memory_used' w - memory_inactive' w else 0) \<and>
   unat (mutable_memtable_memory_usage w) = unat (memory_used' w) - unat (memory_inactive' w)"
proof (cases "memory_inactive' w < memory_used' w")
  case True
  then have le: "memory_inactive' w \<le> memory_used' w" by simp
  have "unat (memory_used' w - memory_inactive' w) =
        unat (memory_used' w) - unat (memory_inactive' w)"
    using le by (rule unat_sub)
  with True show ?thesis
    by (simp add: mutable_memtable_memory_usage_def memory_usage_def Let_def not_le [symmetric])
next
  case False
  then have ge: "memory_used' w \<le> memory_inactive' w" by simp
  then have "unat (memory_used' w) \<le> unat (memory_inactive' w)"
    by (simp add: word_le_nat_alt)
  with False ge show ?thesis
    by (simp add: mutable_memtable_memory_usage_def memory_usage_def Let_def)
qed

subsection \<open>Scoped pinning policy\<close>

lemma unat_share:
  fixes c :: "64 word" and p :: "32 word"
  assumes "unat c * unat p < 2 ^ 64"
  shows "unat (c * ucast p div 100) = unat c * unat p div 100"
proof -
  have "uint (ucast p :: 64 word) = uint p"
    by (rule uint_up_ucast) (simp add: is_up)
  then have up: "unat (ucast p :: 64 word) = unat p"
    by (simp only: unat_eq_nat_uint)
  have "unat (c * ucast p) = unat c * unat p"
    using assms up by (simp add: unat_mult_lem [THEN iffD1])
  then show ?thesis by (simp add: unat_div)
qed

text \<open>
  C7 as stated: for every request the pin is admitted iff \<open>usage + size\<close> is within
  \<open>capacity \<times> percent / 100\<close> (or the capacity). \<^verbatim>\<open>CheckPin\<close> computes the sum and the
  product in \<^verbatim>\<open>size_t\<close>, where they wrap. With capacity 1000 and a table in level 0, a
  usage of \<open>2 ^ 64 - 1\<close> (18446744073709551615) and a size of 2 add up to 1 and the pin is admitted, far beyond
  the capacity. With capacity \<open>2 ^ 63\<close> (9223372036854775808) and 10% for the last level, the product wraps to
  0 and a pin of one byte at usage 0 is refused, far within the bucket.
\<close>

theorem CheckPin_overflow_counterexample:
  "CheckPin (sample_pinning 1000) (sample_table 0 False) 2 18446744073709551615 \<and>
   \<not> (unat (18446744073709551615 :: size_t) + unat (2 :: size_t)
        \<le> applicable_bucket (sample_pinning 1000) (sample_table 0 False)) \<and>
   \<not> CheckPin (sample_pinning 9223372036854775808) (sample_table 3 True) 1 0 \<and>
   unat (0 :: size_t) + unat (1 :: size_t)
     \<le> applicable_bucket (sample_pinning 9223372036854775808) (sample_table 3 True)"
  by (simp add: CheckPin_def applicable_bucket_def sample_pinning_def sample_table_def)

text \<open>
  C7, amended: for every pinning request in which \<open>usage + size\<close> fits \<^verbatim>\<open>size_t\<close> and
  the product of the capacity and the percentage of the applicable bucket fits
  \<^verbatim>\<open>size_t\<close>, \<^verbatim>\<open>CheckPin\<close> admits the pin iff \<open>usage + size\<close> is within the applicable
  bucket: \<open>capacity \<times> last_level_with_data_percent / 100\<close> when
  \<open>is_last_level_with_data\<close> and that percentage is positive; otherwise
  \<open>capacity \<times> mid_percent / 100\<close> when the level and that percentage are positive;
  otherwise the capacity. Only the one applicable bucket is checked.
\<close>

theorem CheckPin_without_overflow:
  assumes sum: "unat usage + unat size' < 2 ^ 64"
    and last_fits:
      "is_last_level_with_data tpi \<and> last_level_with_data_percent options' > 0 \<longrightarrow>
       unat (capacity options') * unat (last_level_with_data_percent options') < 2 ^ 64"
    and mid_fits:
      "\<not> (is_last_level_with_data tpi \<and> last_level_with_data_percent options' > 0) \<and>
       0 < sint (level tpi) \<and> mid_percent options' > 0 \<longrightarrow>
       unat (capacity options') * unat (mid_percent options') < 2 ^ 64"
  shows "CheckPin options' tpi size' usage =
           (unat usage + unat size' \<le> applicable_bucket options' tpi)"
proof -
  have s: "unat (usage + size') = unat usage + unat size'"
    using sum by (simp add: unat_add_lem [THEN iffD1])
  show ?thesis
  proof (cases "is_last_level_with_data tpi \<and> last_level_with_data_percent options' > 0")
    case True
    with last_fits have
      "unat (capacity options' * ucast (last_level_with_data_percent options') div 100) =
       unat (capacity options') * unat (last_level_with_data_percent options') div 100"
      by (simp add: unat_share)
    with True s show ?thesis
      by (auto simp: CheckPin_def applicable_bucket_def Let_def word_less_nat_alt)
  next
    case not_last: False
    show ?thesis
    proof (cases "0 < sint (level tpi) \<and> mid_percent options' > 0")
      case True
      with mid_fits not_last have
        "unat (capacity options' * ucast (mid_percent options') div 100) =
         unat (capacity options') * unat (mid_percent options') div 100"
        by (simp add: unat_share)
      with True not_last s show ?thesis
        by (auto simp: CheckPin_def applicable_bucket_def Let_def word_less_nat_alt)
    next
      case False
      with not_last s show ?thesis
        by (auto simp: CheckPin_def applicable_bucket_def Let_def word_less_nat_alt)
    qed
  qed
qed

theorem CheckPin_without_overflow_witness:
  "CheckPin (sample_pinning 1000) (sample_table 3 False) 100 700 \<and>
   unat (700 :: size_t) + unat (100 :: size_t)
     \<le> applicable_bucket (sample_pinning 1000) (sample_table 3 False) \<and>
   \<not> CheckPin (sample_pinning 1000) (sample_table 3 True) 1 100 \<and>
   \<not> (unat (100 :: size_t) + unat (1 :: size_t)
        \<le> applicable_bucket (sample_pinning 1000) (sample_table 3 True))"
  using
    CheckPin_without_overflow [of 700 100 "sample_table 3 False" "sample_pinning 1000"]
    CheckPin_without_overflow [of 100 1 "sample_table 3 True" "sample_pinning 1000"]
  by (simp add: applicable_bucket_def sample_pinning_def sample_table_def)

subsection \<open>Adaptive table factory\<close>

text \<open>
  C8. Once the footer has been read, \<^verbatim>\<open>NewTableReader\<close> hands the file to the plain
  factory for the plain and legacy plain magic numbers, to the block-based factory for the
  block-based and legacy block-based ones, to the cuckoo factory for the cuckoo one (the
  tests are made in this order), and for every other magic number it returns
  \<open>NotSupported\<close> and leaves \<open>table\<close> as it was, whatever the factories are.
\<close>

theorem NewTableReader_dispatch:
  assumes "ReadFooterFromFile tro rfile fsz = (s, footer)" and "ok s"
  shows
    "((table_magic_number footer = kPlainTableMagicNumber mn \<or>
       table_magic_number footer = kLegacyPlainTableMagicNumber mn) \<longrightarrow>
      NewTableReader mn ReadFooterFromFile f ro tro rfile fsz table prefetch =
        plain_table_factory' f tro rfile fsz table) \<and>
     (table_magic_number footer \<noteq> kPlainTableMagicNumber mn \<and>
      table_magic_number footer \<noteq> kLegacyPlainTableMagicNumber mn \<and>
      (table_magic_number footer = kBlockBasedTableMagicNumber mn \<or>
       table_magic_number footer = kLegacyBlockBasedTableMagicNumber mn) \<longrightarrow>
      NewTableReader mn ReadFooterFromFile f ro tro rfile fsz table prefetch =
        block_based_table_factory' f ro tro rfile fsz table prefetch) \<and>
     (table_magic_number footer \<noteq> kPlainTableMagicNumber mn \<and>
      table_magic_number footer \<noteq> kLegacyPlainTableMagicNumber mn \<and>
      table_magic_number footer \<noteq> kBlockBasedTableMagicNumber mn \<and>
      table_magic_number footer \<noteq> kLegacyBlockBasedTableMagicNumber mn \<and>
      table_magic_number footer = kCuckooTableMagicNumber mn \<longrightarrow>
      NewTableReader mn ReadFooterFromFile f ro tro rfile fsz table prefetch =
        cuckoo_table_factory' f tro rfile fsz table) \<and>
     (\<not> recognized mn (table_magic_number footer) \<longrightarrow>
      NewTableReader mn ReadFooterFromFile f ro tro rfile fsz table prefetch =
        (NotSupported ''Unidentified table format'', table))"
  using assms by (auto simp: NewTableReader_def recognized_def)

theorem NewTableReader_dispatch_witness:
  "NewTableReader sample_magic (footer_with 6) sample_factory () () () 0 None False =
     (NotSupported ''Unidentified table format'', None) \<and>
   NewTableReader sample_magic (footer_with 4) sample_factory () () () 0 None False =
     (Status kOk [], Some ''block_based'')"
  using
    NewTableReader_dispatch [where ReadFooterFromFile = "footer_with 6" and tro = "()"
      and rfile = "()" and fsz = 0 and s = "Status kOk []"
      and footer = "\<lparr> table_magic_number = 6 \<rparr>" and mn = sample_magic
      and f = sample_factory and ro = "()" and table = None and prefetch = False]
    NewTableReader_dispatch [where ReadFooterFromFile = "footer_with 4" and tro = "()"
      and rfile = "()" and fsz = 0 and s = "Status kOk []"
      and footer = "\<lparr> table_magic_number = 4 \<rparr>" and mn = sample_magic
      and f = sample_factory and ro = "()" and table = None and prefetch = False]
  by (simp add: footer_with_def recognized_def sample_magic_def sample_factory_def)

subsection \<open>Hybrid compaction picker\<close>

text \<open>
  C3 as stated: \<open>MayStartLevelCompaction(H)\<close> holds iff \<open>H\<close> has no running compaction
  and, for \<open>H\<close> not the last hyper-level, the cursor is empty or the level below
  \<open>LastLevelInHyper(H)\<close> is empty. For hyper-level 1 of 2 with an empty cursor, nothing
  running and a file in the level below, the right-hand side holds and the picker answers
  false.
\<close>

theorem MayStartLevelCompaction_counterexample:
  "nCompactions (desc idle_descriptors 1) = 0 \<and>
   (1 = curNumOfHyperLevels' (sample_picker True) \<or>
    prevSubCompaction' (sample_picker True) 1 \<or>
    LevelFiles full_version ((\<lambda>h. 6 * h) 1 + 1) = []) \<and>
   \<not> MayStartLevelCompaction (\<lambda>h. 6 * h) (\<lambda>c. c) (sample_picker True) 1
        idle_descriptors full_version"
  by (simp add: MayStartLevelCompaction_def sample_picker_def idle_descriptors_def
      full_version_def)

text \<open>
  C3, amended: \<open>MayStartLevelCompaction(H)\<close> holds iff \<open>H\<close> has no running compaction
  and, when \<open>H\<close> is not the last hyper-level, the sub-compaction cursor of \<open>H\<close> is not
  empty or level \<open>LastLevelInHyper(H) + 1\<close> is empty.
\<close>

theorem MayStartLevelCompaction_iff:
  "MayStartLevelCompaction LastLevelInHyper cursor_empty p H running vstorage =
     (nCompactions (desc running H) = 0 \<and>
      (H \<noteq> curNumOfHyperLevels' p \<longrightarrow>
         \<not> cursor_empty (prevSubCompaction' p H) \<or>
         LevelFiles vstorage (LastLevelInHyper H + 1) = []))"
  by (auto simp: MayStartLevelCompaction_def)

theorem MayStartLevelCompaction_iff_witness:
  "MayStartLevelCompaction (\<lambda>h. 6 * h) (\<lambda>c. c) (sample_picker False) 1
     idle_descriptors full_version \<and>
   1 \<noteq> curNumOfHyperLevels' (sample_picker False) \<and>
   LevelFiles full_version ((\<lambda>h. 6 * h) 1 + 1) \<noteq> []"
  using MayStartLevelCompaction_iff [of "\<lambda>h. 6 * h" "\<lambda>c. c" "sample_picker False" 1
      idle_descriptors full_version]
  by (simp add: sample_picker_def idle_descriptors_def full_version_def)

subsection \<open>HashSpd memtable: the sort thread\<close>

lemma drop_is_Cons:
  "drop s xs = y # ys \<Longrightarrow> s < length xs \<and> xs ! s = y \<and> drop (Suc s) xs = ys"
  by (metis Cons_nth_drop_Suc drop_eq_Nil list.distinct(1) list.inject not_less)

text \<open>
  The loop keeps \<open>[start, s)\<close> as a run of \<open>count\<close> small vectors, shorter than
  \<open>kMergedVectorsMax\<close>; what it returns is such a run, of at most \<open>kMergedVectorsMax\<close>
  vectors, ending at or before \<open>last\<close>.
\<close>

lemma TryMergeVectors_loop_run:
  assumes "TryMergeVectors_loop thr szs s start cnt l = (start1, l1, cnt1)"
    and "szs = drop s sizes" and "length sizes = l" and "s \<le> l"
    and "start + cnt = s" and "cnt < kMergedVectorsMax"
    and "\<forall>i. start \<le> i \<and> i < s \<longrightarrow> sizes ! i \<le> thr"
  shows "start1 + cnt1 = l1 \<and> cnt1 \<le> kMergedVectorsMax \<and> l1 \<le> l \<and>
         (\<forall>i. start1 \<le> i \<and> i < l1 \<longrightarrow> sizes ! i \<le> thr)"
  using assms
proof (induction szs arbitrary: s start cnt)
  case Nil
  then have "s = l" by simp
  with Nil show ?case by auto
next
  case (Cons sz rest)
  from Cons.prems(2) have at: "s < length sizes" "sizes ! s = sz" "drop (Suc s) sizes = rest"
    using drop_is_Cons [of s sizes sz rest] by simp_all
  show ?case
  proof (cases "sz > thr")
    case big: True
    show ?thesis
    proof (cases "cnt > 1")
      case True
      with big Cons.prems(1) have "start1 = start" "l1 = s" "cnt1 = cnt" by simp_all
      then show ?thesis using Cons.prems(3-7) at(1) by auto
    next
      case False
      with big Cons.prems(1)
      have run: "TryMergeVectors_loop thr rest (Suc s) (Suc s) 0 l = (start1, l1, cnt1)"
        by simp
      show ?thesis
        by (rule Cons.IH [OF run]) (use at Cons.prems in \<open>auto simp: kMergedVectorsMax_def\<close>)
    qed
  next
    case small: False
    show ?thesis
    proof (cases "cnt + 1 = kMergedVectorsMax")
      case True
      with small Cons.prems(1) have "start1 = start" "l1 = s + 1" "cnt1 = cnt + 1" by simp_all
      moreover have "\<forall>i. start \<le> i \<and> i < s + 1 \<longrightarrow> sizes ! i \<le> thr"
        using Cons.prems(7) small at(2) by (auto simp: less_Suc_eq)
      ultimately show ?thesis using Cons.prems(3-6) at(1) True by auto
    next
      case False
      with small Cons.prems(1)
      have run: "TryMergeVectors_loop thr rest (Suc s) start (Suc cnt) l = (start1, l1, cnt1)"
        by simp
      have inv: "\<forall>i. start \<le> i \<and> i < Suc s \<longrightarrow> sizes ! i \<le> thr"
        using Cons.prems(7) small at(2) by (auto simp: less_Suc_eq)
      show ?thesis
        by (rule Cons.IH [OF run _ _ _ _ _ inv]) (use at False Cons.prems in auto)
    qed
  qed
qed

lemma length_SortThread_sort:
  "a \<le> l \<Longrightarrow> l \<le> length vs \<Longrightarrow> length (SortThread_sort comparator vs a l) = length vs"
  by (simp add: SortThread_sort_def)

lemma TryMergeVectors_call:
  assumes "TryMergeVectors comparator Size c l = (merged, c2, Some (start, l1))"
    and "l \<le> length (spdb_vectors' c)"
  shows "start + 2 \<le> l1 \<and> l1 \<le> start + kMergedVectorsMax \<and> l1 \<le> l \<and>
         (\<forall>i. start \<le> i \<and> i < l1 \<longrightarrow>
              Size (spdb_vectors' c ! i) \<le> switch_spdb_vector_limit' c * 75 div 100) \<and>
         merged \<and> c2 = Merge comparator Size c start l1"
proof -
  let ?thr = "switch_spdb_vector_limit' c * 75 div 100"
  let ?sizes = "map Size (take l (spdb_vectors' c))"
  obtain s1 e1 n1 where run: "TryMergeVectors_loop ?thr ?sizes 0 0 0 l = (s1, e1, n1)"
    by (metis prod_cases3)
  from assms(1) run have n1: "n1 > 1" and eq: "start = s1" "l1 = e1" and m: "merged"
    and c2: "c2 = Merge comparator Size c s1 e1"
    by (auto simp: TryMergeVectors_def Let_def split: if_splits)
  have len: "length ?sizes = l" using assms(2) by simp
  have "s1 + n1 = e1 \<and> n1 \<le> kMergedVectorsMax \<and> e1 \<le> l \<and>
        (\<forall>i. s1 \<le> i \<and> i < e1 \<longrightarrow> ?sizes ! i \<le> ?thr)"
    by (rule TryMergeVectors_loop_run [OF run _ len]) (simp_all add: kMergedVectorsMax_def)
  moreover have "?sizes ! i = Size (spdb_vectors' c ! i)" if "i < e1" "e1 \<le> l" for i
    using that assms(2) by simp
  ultimately show ?thesis using n1 eq m c2 by auto
qed

text \<open>
  C6 as stated: the sort thread merges only a run of vectors each smaller than 75% of
  the vector capacity. With capacity 4 and eight sealed vectors of three keys before the
  tail (three slots, all written, so that their size is three however \<open>Size\<close> counts), a
  pass merges the vectors at positions 0 to 7, and a vector of three keys is not smaller
  than 75% of 4.
\<close>

theorem SortThread_merge_counterexample:
  "merge_call (SortThread nat_comparator n_elements' nine_vectors 0) = Some (0, 8) \<and>
   \<not> (100 * n_elements' (spdb_vectors' nine_vectors ! 0) <
        75 * switch_spdb_vector_limit' nine_vectors)"
  by (simp add: SortThread_def nine_vectors_def SortThread_sort_def sealed_vector_def
      SpdbVector_Sort_def SpdbVector_new_def kMergedVectorsMax_def TryMergeVectors_def Let_def)

text \<open>
  C6, amended: a pass of the sort thread merges only when the container holds more than
  \<open>kMergedVectorsMax\<close> (8) vectors; the vectors it merges are consecutive, at least 2 and
  at most \<open>kMergedVectorsMax\<close>, each of a size (taken after the pass has sorted the
  vectors before the tail) of at most 75% of the vector capacity, that is at most
  \<open>limit * 75 div 100\<close>; and they lie before the tail vector.
\<close>

theorem SortThread_merge:
  assumes "merge_call (SortThread comparator Size c sort_iter_anchor) = Some (start, l1)"
  shows "length (spdb_vectors' c) > kMergedVectorsMax \<and>
         start + 2 \<le> l1 \<and> l1 \<le> start + kMergedVectorsMax \<and>
         l1 \<le> length (spdb_vectors' c) - 1 \<and>
         (\<forall>i. start \<le> i \<and> i < l1 \<longrightarrow>
              Size (SortThread_sort comparator (spdb_vectors' c) sort_iter_anchor
                      (length (spdb_vectors' c) - 1) ! i)
                \<le> switch_spdb_vector_limit' c * 75 div 100)"
proof -
  let ?l = "length (spdb_vectors' c) - 1"
  let ?vs1 = "SortThread_sort comparator (spdb_vectors' c) sort_iter_anchor ?l"
  let ?c1 = "c\<lparr>spdb_vectors' := ?vs1\<rparr>"
  from assms obtain c2 anchor2 where
    step: "SortThread comparator Size c sort_iter_anchor = Continue c2 anchor2 (Some (start, l1))"
    by (cases "SortThread comparator Size c sort_iter_anchor") simp_all
  from step have ne: "spdb_vectors' c \<noteq> []" and anchor: "sort_iter_anchor < ?l"
    by (auto simp: SortThread_def Let_def split: if_splits prod.splits)
  have len: "length ?vs1 = length (spdb_vectors' c)"
    using anchor by (simp add: length_SortThread_sort)
  from step anchor ne have many: "length ?vs1 > kMergedVectorsMax"
    by (auto simp: SortThread_def Let_def split: if_splits prod.splits)
  from step anchor ne many obtain merged where
    call: "TryMergeVectors comparator Size ?c1 ?l = (merged, c2, Some (start, l1))"
    by (auto simp: SortThread_def Let_def split: if_splits prod.splits)
  have "?l \<le> length (spdb_vectors' ?c1)" using len by simp
  from TryMergeVectors_call [OF call this] many len show ?thesis by simp
qed

theorem SortThread_merge_witness:
  "merge_call (SortThread nat_comparator n_elements' nine_vectors 0) = Some (0, 8) \<and>
   kMergedVectorsMax < length (spdb_vectors' nine_vectors) \<and>
   n_elements' (SortThread_sort nat_comparator (spdb_vectors' nine_vectors) 0
                  (length (spdb_vectors' nine_vectors) - 1) ! 7)
     \<le> switch_spdb_vector_limit' nine_vectors * 75 div 100"
proof -
  have call: "merge_call (SortThread nat_comparator n_elements' nine_vectors 0) = Some (0, 8)"
    by (simp add: SortThread_def nine_vectors_def SortThread_sort_def sealed_vector_def
        SpdbVector_Sort_def SpdbVector_new_def kMergedVectorsMax_def TryMergeVectors_def Let_def)
  from SortThread_merge [OF call] call show ?thesis by simp
qed

subsection \<open>HashSpd memtable: memory usage\<close>

text \<open>
  C9. \<^verbatim>\<open>HashSpdRep::ApproximateMemoryUsage\<close> returns 0 for every memtable state: the
  memory is accounted by the allocator, none by the memtable itself.
\<close>

theorem ApproximateMemoryUsage_zero:
  "ApproximateMemoryUsage rep = 0"
  by (simp add: ApproximateMemoryUsage_def)

subsection \<open>HashSpd memtable: comparators and buckets\<close>


lemma cmp_flip: "valid_comparator c \<Longrightarrow> (c a b < 0) = (c b a > 0)"
  by (simp add: valid_comparator_def)

lemma cmp_sym: "valid_comparator c \<Longrightarrow> c a b = 0 \<Longrightarrow> c b a = 0"
  using cmp_flip [of c a b] cmp_flip [of c b a] by linarith

lemma cmp_le_trans: "valid_comparator c \<Longrightarrow> c x y \<le> 0 \<Longrightarrow> c y z \<le> 0 \<Longrightarrow> c x z \<le> 0"
  unfolding valid_comparator_def by blast

lemma cmp_lt_le_trans:
  assumes v: "valid_comparator c" and xy: "c x y < 0" and yz: "c y z \<le> 0"
  shows "c x z < 0"
proof (rule ccontr)
  assume "\<not> c x z < 0"
  moreover have "c x z \<le> 0" using cmp_le_trans [OF v _ yz] xy by simp
  ultimately have "c x z = 0" by simp
  then have "c z x \<le> 0" using cmp_sym [OF v] by fastforce
  then have "c y x \<le> 0" using cmp_le_trans [OF v yz] by blast
  moreover have "c y x > 0" using cmp_flip [OF v, of x y] xy by simp
  ultimately show False by simp
qed

lemma cmp_le_lt_trans:
  assumes v: "valid_comparator c" and xy: "c x y \<le> 0" and yz: "c y z < 0"
  shows "c x z < 0"
proof (rule ccontr)
  assume "\<not> c x z < 0"
  moreover have "c x z \<le> 0" using cmp_le_trans [OF v xy] yz by simp
  ultimately have "c x z = 0" by simp
  then have "c z x \<le> 0" using cmp_sym [OF v] by fastforce
  then have "c z y \<le> 0" using cmp_le_trans [OF v _ xy] by blast
  moreover have "c z y > 0" using cmp_flip [OF v, of y z] yz by simp
  ultimately show False by simp
qed


lemma Add_set: "set (snd (BucketHeader_Add c v b)) \<subseteq> insert v (set b)"
  by (induction b) (auto simp: Let_def split: prod.splits)



lemma Add_sorted:
  assumes v: "valid_comparator c"
  shows "strictly_sorted c b \<Longrightarrow> strictly_sorted c (snd (BucketHeader_Add c x b))"
proof (induction b)
  case Nil
  then show ?case by (simp add: strictly_sorted_def)
next
  case (Cons k rest)
  have rest: "strictly_sorted c rest" and above: "\<forall>y\<in>set rest. c k y < 0"
    using Cons.prems by (simp_all add: strictly_sorted_def)
  show ?case
  proof (cases "c k x = 0")
    case True
    with Cons.prems show ?thesis by simp
  next
    case nz: False
    show ?thesis
    proof (cases "c k x > 0")
      case True
      then have xk: "c x k < 0" using cmp_flip [OF v, of x k] by simp
      have "\<forall>y\<in>set rest. c x y < 0"
        using cmp_lt_le_trans [OF v xk] above by fastforce
      with True nz xk Cons.prems show ?thesis by (simp add: strictly_sorted_def)
    next
      case False
      with nz have kx: "c k x < 0" by simp
      have "\<forall>y\<in>set (snd (BucketHeader_Add c x rest)). c k y < 0"
        using Add_set [of c x rest] above kx by auto
      with False nz Cons.IH [OF rest] show ?thesis
        by (auto simp: strictly_sorted_def split: prod.splits)
    qed
  qed
qed


lemma Contains_iff:
  assumes v: "valid_comparator c"
  shows "strictly_sorted c b \<Longrightarrow> BucketHeader_Contains c b x = (\<exists>y\<in>set b. c y x = 0)"
proof (induction b)
  case Nil
  then show ?case by simp
next
  case (Cons k rest)
  have rest: "strictly_sorted c rest" and above: "\<forall>y\<in>set rest. c k y < 0"
    using Cons.prems by (simp_all add: strictly_sorted_def)
  show ?case
  proof (cases "c k x = 0")
    case True
    then show ?thesis by simp
  next
    case nz: False
    show ?thesis
    proof (cases "c k x > 0")
      case True
      then have xk: "c x k < 0" using cmp_flip [OF v, of x k] by simp
      have "\<forall>y\<in>set rest. c x y < 0"
        using cmp_lt_le_trans [OF v xk] above by fastforce
      then have "\<forall>y\<in>set rest. c y x \<noteq> 0"
        using cmp_flip [OF v] by fastforce
      with True nz show ?thesis by simp
    next
      case False
      with nz Cons.IH [OF rest] show ?thesis
        by simp
    qed
  qed
qed

lemma Get_seek_filter:
  assumes v: "valid_comparator c"
  shows "strictly_sorted c b \<Longrightarrow> Get_seek c x b = filter (\<lambda>y. c y x \<ge> 0) b"
proof (induction b)
  case Nil
  then show ?case by simp
next
  case (Cons k rest)
  have rest: "strictly_sorted c rest" and above: "\<forall>y\<in>set rest. c k y < 0"
    using Cons.prems by (simp_all add: strictly_sorted_def)
  show ?case
  proof (cases "c k x \<ge> 0")
    case True
    then have xk: "c x k \<le> 0" using cmp_flip [OF v, of k x] by simp
    have "\<forall>y\<in>set rest. c x y < 0"
      using cmp_le_lt_trans [OF v xk] above by fastforce
    then have "\<forall>y\<in>set rest. c y x \<ge> 0"
      using cmp_flip [OF v] by fastforce
    with True show ?thesis by simp
  next
    case False
    with Cons.IH [OF rest] show ?thesis by simp
  qed
qed

lemma valid_nat_comparator: "valid_comparator nat_comparator"
  by (auto simp: valid_comparator_def nat_comparator_def)



subsection \<open>Inserts keep the buckets sorted\<close>

lemma InternalInsert_nonempty:
  "spdb_vectors' c \<noteq> [] \<Longrightarrow>
   \<exists>r c1. InternalInsert c k = Some (r, c1) \<and> spdb_vectors' c1 \<noteq> []"
  by (simp add: InternalInsert_def split: prod.splits)

lemma Insert_nonempty:
  assumes "spdb_vectors' c \<noteq> []"
  shows "\<exists>c1. SpdbVectorContainer_Insert c k = Some c1 \<and> spdb_vectors' c1 \<noteq> []"
proof -
  let ?c1 = "c\<lparr>num_elements' := num_elements' c + 1\<rparr>"
  from assms obtain r1 c2 where a1: "InternalInsert ?c1 k = Some (r1, c2)"
    and n2: "spdb_vectors' c2 \<noteq> []"
    using InternalInsert_nonempty [of ?c1 k] by auto
  from n2 obtain r2 c3 where a2: "InternalInsert c2 k = Some (r2, c3)"
    and n3: "spdb_vectors' c3 \<noteq> []"
    using InternalInsert_nonempty [of c2 k] by auto
  let ?c4 = "c3\<lparr>spdb_vectors' := spdb_vectors' c3 @
                [SpdbVector_new (switch_spdb_vector_limit' c3)]\<rparr>"
  obtain r3 c5 where a3: "InternalInsert ?c4 k = Some (r3, c5)"
    and n5: "spdb_vectors' c5 \<noteq> []"
    using InternalInsert_nonempty [of ?c4 k] by auto
  show ?thesis
    using a1 a2 a3 n2 n3 n5 by (simp add: SpdbVectorContainer_Insert_def Let_def)
qed

lemma InsertKey_sorted:
  assumes v: "valid_comparator compare'" and inv: "rep_sorted compare' rep"
  shows "\<exists>r rep1. InsertKey GetHash compare' rep h = Some (r, rep1) \<and> rep_sorted compare' rep1"
proof -
  let ?bs = "buckets' (spdb_hash_table' rep)"
  let ?i = "GetHash h mod length ?bs"
  from inv have ne: "?bs \<noteq> []" and srt: "\<forall>b\<in>set ?bs. strictly_sorted compare' b"
    and vne: "spdb_vectors' (spdb_vectors_cont' rep) \<noteq> []"
    by (simp_all add: rep_sorted_def)
  have i: "?i < length ?bs" using ne by simp
  obtain r b where add: "BucketHeader_Add compare' h (?bs ! ?i) = (r, b)"
    by (cases "BucketHeader_Add compare' h (?bs ! ?i)")
  have "strictly_sorted compare' b"
    using Add_sorted [OF v, of "?bs ! ?i" h] srt i add by simp
  then have srt1: "\<forall>b1\<in>set (?bs[?i := b]). strictly_sorted compare' b1"
    using srt by (auto dest: subsetD [OF set_update_subset_insert])
  let ?t = "(spdb_hash_table' rep)\<lparr>buckets' := ?bs[?i := b]\<rparr>"
  have tadd: "SpdbHashTable_Add GetHash compare' (spdb_hash_table' rep) h = Some (r, ?t)"
    using ne add by (simp add: SpdbHashTable_Add_def GetMutexAndBucket_def)
  obtain c1 where ins: "SpdbVectorContainer_Insert (spdb_vectors_cont' rep) h = Some c1"
    and c1: "spdb_vectors' c1 \<noteq> []"
    using Insert_nonempty [OF vne] by blast
  show ?thesis
    using tadd ins c1 srt1 ne vne by (cases r) (auto simp: InsertKey_def rep_sorted_def)
qed

lemma InsertKeys_sorted:
  assumes v: "valid_comparator compare'"
  shows "rep_sorted compare' rep \<Longrightarrow>
    \<exists>rs rep1. InsertKeys GetHash compare' rep hs = Some (rs, rep1) \<and> rep_sorted compare' rep1"
proof (induction hs arbitrary: rep)
  case Nil
  then show ?case by simp
next
  case (Cons h hs)
  from InsertKey_sorted [OF v Cons.prems] obtain r rep1 where
    one: "InsertKey GetHash compare' rep h = Some (r, rep1)" and s1: "rep_sorted compare' rep1"
    by blast
  from Cons.IH [OF s1] obtain rs rep2 where
    "InsertKeys GetHash compare' rep1 hs = Some (rs, rep2)" "rep_sorted compare' rep2"
    by blast
  with one show ?case by simp
qed

lemma rep_sorted_new:
  "0 < bucket_size \<Longrightarrow> rep_sorted compare' (HashSpdRep_new bucket_size limit)"
  by (simp add: rep_sorted_def HashSpdRep_new_def SpdbVectorContainer_new_def
      strictly_sorted_def)

text \<open>
  C5. Starting from a new memtable with at least one bucket, every sequence of inserts
  runs to its end, and afterwards (so after each insert, since every prefix of a sequence
  is a sequence) each bucket list is strictly sorted by the comparator, hence free of
  duplicates. On such a list \<open>Contains\<close>, which stops at the first entry above the
  probe, finds exactly the keys comparing equal to the probe, and the entries \<open>Get\<close>
  skips are exactly those below the lookup key.
\<close>

theorem buckets_stay_sorted:
  assumes "valid_comparator compare'" and "0 < bucket_size"
  shows "\<exists>rs rep.
           InsertKeys GetHash compare' (HashSpdRep_new bucket_size limit) hs = Some (rs, rep) \<and>
           (\<forall>b\<in>set (buckets' (spdb_hash_table' rep)).
              strictly_sorted compare' b \<and>
              (\<forall>k. BucketHeader_Contains compare' b k = (\<exists>x\<in>set b. compare' x k = 0)) \<and>
              (\<forall>k. Get_seek compare' k b = filter (\<lambda>x. compare' x k \<ge> 0) b))"
proof -
  from InsertKeys_sorted [OF assms(1) rep_sorted_new [OF assms(2)]] obtain rs rep where
    run: "InsertKeys GetHash compare' (HashSpdRep_new bucket_size limit) hs = Some (rs, rep)"
    and srt: "rep_sorted compare' rep"
    by blast
  have "strictly_sorted compare' b \<and>
        (\<forall>k. BucketHeader_Contains compare' b k = (\<exists>x\<in>set b. compare' x k = 0)) \<and>
        (\<forall>k. Get_seek compare' k b = filter (\<lambda>x. compare' x k \<ge> 0) b)"
    if "b \<in> set (buckets' (spdb_hash_table' rep))" for b
  proof -
    from srt that have "strictly_sorted compare' b" by (simp add: rep_sorted_def)
    then show ?thesis
      using Contains_iff [OF assms(1)] Get_seek_filter [OF assms(1)] by blast
  qed
  with run show ?thesis by blast
qed

theorem buckets_stay_sorted_witness:
  "\<exists>rs rep.
     InsertKeys (\<lambda>k. k) nat_comparator (HashSpdRep_new 2 4) [3, 1, 5, 1] = Some (rs, rep) \<and>
     buckets' (spdb_hash_table' rep) = [[], [1, 3, 5]] \<and>
     strictly_sorted nat_comparator [1, 3, 5] \<and>
     BucketHeader_Contains nat_comparator [1, 3, 5] 3 \<and>
     Get_seek nat_comparator 3 [1, 3, 5] = [3, 5]"
proof -
  from buckets_stay_sorted [OF valid_nat_comparator, of 2 "\<lambda>k. k" 4 "[3, 1, 5, 1]"]
  obtain rs rep where
    run: "InsertKeys (\<lambda>k. k) nat_comparator (HashSpdRep_new 2 4) [3, 1, 5, 1] = Some (rs, rep)"
    and all: "\<forall>b\<in>set (buckets' (spdb_hash_table' rep)).
                strictly_sorted nat_comparator b \<and>
                (\<forall>k. BucketHeader_Contains nat_comparator b k =
                      (\<exists>x\<in>set b. nat_comparator x k = 0)) \<and>
                (\<forall>k. Get_seek nat_comparator k b = filter (\<lambda>x. nat_comparator x k \<ge> 0) b)"
    by auto
  have "map_option (\<lambda>r. buckets' (spdb_hash_table' (snd r)))
          (InsertKeys (\<lambda>k. k) nat_comparator (HashSpdRep_new 2 4) [3, 1, 5, 1]) =
        Some [[], [1, 3, 5]]"
    by code_simp
  with run have bs: "buckets' (spdb_hash_table' rep) = [[], [1, 3, 5]]" by simp
  with all have b: "strictly_sorted nat_comparator [1, 3, 5]"
    and c: "BucketHeader_Contains nat_comparator [1, 3, 5] 3 =
              (\<exists>x\<in>set [1, 3, 5]. nat_comparator x 3 = 0)"
    and g: "Get_seek nat_comparator 3 [1, 3, 5] =
              filter (\<lambda>x. nat_comparator x 3 \<ge> 0) [1, 3, 5]"
    by simp_all
  from c have c1: "BucketHeader_Contains nat_comparator [1, 3, 5] 3"
    by (simp add: nat_comparator_def)
  from g have g1: "Get_seek nat_comparator 3 [1, 3, 5] = [3, 5]"
    by (simp add: nat_comparator_def)
  from run bs b c1 g1 show ?thesis by blast
qed

subsection \<open>Keys held by the sorted vectors\<close>













subsection \<open>The memtable invariant\<close>








subsection \<open>The iterator yields the stored keys\<close>












subsection \<open>Sort thread and iterator keep the keys\<close>












subsection \<open>Runs of the memtable keep the invariant\<close>






end
